theory Spec2Isabelle
  imports Complex_Main "HOL-Library.Sublist"
begin

section \<open>Types (types.ts)\<close>

datatype AppMode = GENERAL | TEXT | SOCIAL | NAVIGATION | SHOPPING

datatype Verbosity = MINIMAL | STANDARD | DETAILED

datatype Priority = urgent | normal

record AppSettings =
  verbosity :: Verbosity
  speechRate :: real
  autoNarration :: bool
  autoInterval :: nat

record AnalysisResult =
  entry_text :: string
  priority :: Priority
  timestamp :: nat

text \<open>The string value of each enum member, as declared in the source.\<close>

fun AppMode_value :: "AppMode \<Rightarrow> string" where
  "AppMode_value GENERAL = ''GENERAL''"
| "AppMode_value TEXT = ''TEXT''"
| "AppMode_value SOCIAL = ''SOCIAL''"
| "AppMode_value NAVIGATION = ''NAVIGATION''"
| "AppMode_value SHOPPING = ''SHOPPING''"

section \<open>String primitives of the host language\<close>

text \<open>
  A text is held as its UTF-8 bytes; ASCII text is the bytes below 128. The program
  applies \<open>toLowerCase\<close> only to the values of the mode enum, which are ASCII
  capitals, and there it is the mapping below.
\<close>

definition toLowerCase_char :: "char \<Rightarrow> char" where
  "toLowerCase_char c =
     (let n = (of_char c :: nat) in if 65 \<le> n \<and> n \<le> 90 then char_of (n + 32) else c)"

definition toLowerCase :: "string \<Rightarrow> string" where
  "toLowerCase s = map toLowerCase_char s"

text \<open>\<open>s.includes(t)\<close>: \<open>t\<close> occurs in \<open>s\<close> as a contiguous run.\<close>

fun includes_str :: "string \<Rightarrow> string \<Rightarrow> bool" where
  "includes_str [] t = (t = [])"
| "includes_str (c # s) t = (prefix t (c # s) \<or> includes_str s t)"

text \<open>\<open>s.replace(a, b)\<close> with one-character strings: only the first occurrence is replaced.\<close>

fun replace_first :: "char \<Rightarrow> char \<Rightarrow> string \<Rightarrow> string" where
  "replace_first a b [] = []"
| "replace_first a b (c # s) = (if c = a then b # s else c # replace_first a b s)"

section \<open>Analysis client (services/geminiService.ts)\<close>

definition SYSTEM_INSTRUCTION :: string where
  "SYSTEM_INSTRUCTION =
     [CHR 0x0A] @
     ''You are an intelligent accessibility assistant for visually impaired users. '' @ [CHR 0x0A] @
     ''Your goal is to be their eyes. '' @ [CHR 0x0A] @
     ''Speak naturally, clearly, and concisely. '' @ [CHR 0x0A] @
     ''Use spatial language (clock positions, distance in feet/steps). '' @ [CHR 0x0A] @
     ''Always prioritize safety warnings (stairs, cars, obstacles) before other details.'' @ [CHR 0x0A] @
     ''Do not use markdown formatting like asterisks or bullet points in the output, just plain text suitable for text-to-speech.'' @ [CHR 0x0A]"

definition getPromptForMode :: "AppMode \<Rightarrow> Verbosity \<Rightarrow> string" where
  "getPromptForMode mode verb =
     (let basePrompt =
            (case mode of
               NAVIGATION \<Rightarrow> ''Navigation Mode. Focus ONLY on the path ahead. Identify obstacles, clear paths, doorways, changes in elevation (stairs, curbs), and hazards. Give specific directions and distances.''
             | TEXT \<Rightarrow> ''Text Reader Mode. Read all visible text clearly. If it's a menu, read items and prices. If it's a sign, explain its purpose. If it's a document, identify fields. Ignore background clutter.''
             | SOCIAL \<Rightarrow> ''Social Mode. Describe people, their approximate ages, facial expressions, body language, and where they are looking. Describe the social atmosphere (relaxed, busy, private conversation).''
             | SHOPPING \<Rightarrow> ''Shopping Mode. Identify products, read brand names and prices if visible. Compare items if multiple are present. Mention colors and packaging details.''
             | GENERAL \<Rightarrow> ''General Mode. Describe the scene comprehensively but concisely. Mention the most important objects, people, and layout of the room or area. Identify immediate surroundings.'');
          lengthInstruction =
            (if verb = MINIMAL then ''Keep response under 15 words. Only critical info and hazards.''
             else if verb = STANDARD then ''Keep response under 40 words. Balance detail with speed.''
             else ''Provide a detailed description (up to 70 words).'')
      in basePrompt @ '' '' @ lengthInstruction @
           '' If you see an immediate danger (car, drop-off, fire), start with 'WARNING:'.'')"

text \<open>
  The remote analysis service is outside the repository. A call to it either rejects
  (the awaited promise throws) or resolves to a response whose \<open>text\<close> may be undefined.
  The built-in \<open>String.prototype.toUpperCase\<close> is outside the repository as well: it
  is the full case mapping of the host language, taken here as it is given.
\<close>

record GenerateContentRequest =
  req_model :: string
  req_mimeType :: string
  req_data :: string
  req_prompt :: string
  req_systemInstruction :: string
  req_temperature :: real

datatype ServiceOutcome = Rejected string | Resolved "string option"

record AnalysisHost =
  generateContent :: "GenerateContentRequest \<Rightarrow> ServiceOutcome"
  toUpperCase :: "string \<Rightarrow> string"

record AnalysisOutput =
  resp_text :: string
  isUrgent :: bool

definition buildRequest :: "string \<Rightarrow> AppMode \<Rightarrow> Verbosity \<Rightarrow> GenerateContentRequest" where
  "buildRequest base64Image mode verb =
     \<lparr> req_model = ''gemini-2.5-flash'',
       req_mimeType = ''image/jpeg'',
       req_data = base64Image,
       req_prompt = getPromptForMode mode verb,
       req_systemInstruction = SYSTEM_INSTRUCTION,
       req_temperature = 4 / 10 \<rparr>"

text \<open>The body of the \<open>try\<close> block: \<open>Inl\<close> is an exception leaving the block.\<close>

definition analyzeImage_try ::
  "AnalysisHost \<Rightarrow> string \<Rightarrow> AppMode \<Rightarrow> Verbosity \<Rightarrow> string + AnalysisOutput" where
  "analyzeImage_try service base64Image mode verb =
     (case generateContent service (buildRequest base64Image mode verb) of
        Rejected err \<Rightarrow> Inl err
      | Resolved response_text \<Rightarrow>
          (let txt = (case response_text of
                        None \<Rightarrow> ''I couldn't analyze the scene.''
                      | Some t \<Rightarrow> if t = [] then ''I couldn't analyze the scene.'' else t);
               urg = (includes_str (toUpperCase service txt) ''WARNING'' \<or>
                      includes_str (toUpperCase service txt) ''CAUTION'')
           in Inr \<lparr> resp_text = txt, isUrgent = urg \<rparr>))"

text \<open>The whole function: \<open>Inl\<close> would be an exception reaching the caller.\<close>

definition analyzeImage ::
  "AnalysisHost \<Rightarrow> string \<Rightarrow> AppMode \<Rightarrow> Verbosity \<Rightarrow> string + AnalysisOutput" where
  "analyzeImage service base64Image mode verb =
     (case analyzeImage_try service base64Image mode verb of
        Inr out \<Rightarrow> Inr out
      | Inl err \<Rightarrow> Inr \<lparr> resp_text = ''Connection error. Please try again.'', isUrgent = False \<rparr>)"

section \<open>Speech arbiter (services/ttsService.ts)\<close>

record SpeechSynthesisVoice =
  lang :: string
  localService :: bool

record SpeechSynthesisUtterance =
  utt_text :: string
  utt_rate :: real
  utt_pitch :: real
  utt_volume :: real
  utt_voice :: "SpeechSynthesisVoice option"

text \<open>
  The speech device of the browser is outside the repository. Its state is the
  \<open>speaking\<close> flag the service reads, the utterances it holds (the one being spoken
  first, then the queued ones) and the installed voices. \<open>cancel\<close> drops every
  utterance; \<open>speak\<close> appends one.
\<close>

record SpeechSynthesis =
  speaking :: bool
  utterances :: "SpeechSynthesisUtterance list"
  voices :: "SpeechSynthesisVoice list"

definition synthesis_cancel :: "SpeechSynthesis \<Rightarrow> SpeechSynthesis" where
  "synthesis_cancel d = d\<lparr> speaking := False, utterances := [] \<rparr>"

definition synthesis_speak :: "SpeechSynthesisUtterance \<Rightarrow> SpeechSynthesis \<Rightarrow> SpeechSynthesis" where
  "synthesis_speak u d = d\<lparr> speaking := True, utterances := utterances d @ [u] \<rparr>"

record TTSService =
  synthesis :: SpeechSynthesis
  currentUtterance :: "SpeechSynthesisUtterance option"

definition stop :: "TTSService \<Rightarrow> TTSService" where
  "stop tts = tts\<lparr> synthesis := synthesis_cancel (synthesis tts) \<rparr>"

definition speak :: "string \<Rightarrow> Priority \<Rightarrow> AppSettings \<Rightarrow> TTSService \<Rightarrow> TTSService" where
  "speak txt prio st tts =
     (if txt = [] then tts
      else
        let syn = (if prio = urgent then synthesis_cancel (synthesis tts)
                   else if speaking (synthesis tts) \<and> autoNarration st
                        then synthesis_cancel (synthesis tts)
                        else synthesis tts);
            preferredVoice =
              (case find (\<lambda>v. prefix ''en'' (lang v) \<and> localService v) (voices syn) of
                 Some v \<Rightarrow> Some v
               | None \<Rightarrow> find (\<lambda>v. prefix ''en'' (lang v)) (voices syn));
            utterance = \<lparr> utt_text = txt,
                          utt_rate = speechRate st,
                          utt_pitch = (if prio = urgent then 11 / 10 else 1),
                          utt_volume = 1,
                          utt_voice = preferredVoice \<rparr>
        in \<lparr> synthesis = synthesis_speak utterance syn, currentUtterance = Some utterance \<rparr>)"

section \<open>Frame source (components/CameraView.tsx)\<close>

record HTMLVideoElement =
  readyState :: nat
  videoWidth :: nat
  videoHeight :: nat

text \<open>
  The canvas of the browser is outside the repository: whether a 2d context can be had,
  and the data URL it encodes (JPEG, quality 0.8) for a video drawn at a given width and
  height. Both calls are taken to return normally.
\<close>

record CanvasHost =
  getContext2d :: bool
  toDataURL :: "nat \<Rightarrow> nat \<Rightarrow> HTMLVideoElement \<Rightarrow> string"

text \<open>\<open>s.split(sep)\<close> with a one-character separator.\<close>

fun split_on :: "char \<Rightarrow> string \<Rightarrow> string list" where
  "split_on sep [] = [[]]"
| "split_on sep (c # s) =
     (if c = sep then [] # split_on sep s
      else (case split_on sep s of [] \<Rightarrow> [[c]] | p # ps \<Rightarrow> (c # p) # ps))"

text \<open>Indexing an array: out of range is \<open>undefined\<close>, here \<open>None\<close>.\<close>

definition index_at :: "'a list \<Rightarrow> nat \<Rightarrow> 'a option" where
  "index_at xs i = (if i < length xs then Some (xs ! i) else None)"

text \<open>\<open>None\<close> stands for both \<open>null\<close> and \<open>undefined\<close>; the canvas takes the integer part of its size.\<close>

definition captureFrame :: "CanvasHost \<Rightarrow> HTMLVideoElement option \<Rightarrow> string option" where
  "captureFrame host videoRef =
     (case videoRef of
        None \<Rightarrow> None
      | Some video \<Rightarrow>
          if readyState video \<noteq> 4 then None
          else
            let width = videoWidth video div 2;
                height = videoHeight video div 2
            in if getContext2d host
               then index_at (split_on CHR '','' (toDataURL host width height video)) 1
               else None)"

text \<open>What \<open>cameraRef.current\<close> gives access to at the moment of a call.\<close>

record CameraViewHandle =
  cam_host :: CanvasHost
  cam_videoRef :: "HTMLVideoElement option"

section \<open>Narration scheduler (App.tsx)\<close>

text \<open>The values a render fixes for the callbacks it creates.\<close>

record Closure =
  cl_isCameraActive :: bool
  cl_currentMode :: AppMode
  cl_settings :: AppSettings

record Timer =
  timer_id :: nat
  timer_delay :: nat
  timer_closure :: Closure

text \<open>An invocation of \<open>processFrame\<close> suspended at its \<open>await\<close>.\<close>

record PendingAnalysis =
  pa_base64Image :: string
  pa_closure :: Closure
  pa_triggeredByAuto :: bool

text \<open>
  The component's state and refs, the global speech service, and the host's timers and
  suspended invocations.
\<close>

record App =
  isCameraActive :: bool
  currentMode :: AppMode
  isProcessing :: bool
  transcripts :: "AnalysisResult list"
  errorMsg :: "string option"
  settings :: AppSettings
  processingRef :: bool
  autoIntervalRef :: "nat option"
  ttsService :: TTSService
  intervals :: "Timer list"
  timeouts :: "Timer list"
  nextTimerId :: nat
  awaiting :: "PendingAnalysis list"

definition render :: "App \<Rightarrow> Closure" where
  "render app = \<lparr> cl_isCameraActive = isCameraActive app,
                  cl_currentMode = currentMode app,
                  cl_settings = settings app \<rparr>"

definition setInterval :: "Closure \<Rightarrow> nat \<Rightarrow> App \<Rightarrow> App" where
  "setInterval cl delay app =
     app\<lparr> intervals := intervals app @
             [\<lparr> timer_id = nextTimerId app, timer_delay = delay, timer_closure = cl \<rparr>],
          nextTimerId := nextTimerId app + 1 \<rparr>"

definition setTimeout :: "Closure \<Rightarrow> nat \<Rightarrow> App \<Rightarrow> App" where
  "setTimeout cl delay app =
     app\<lparr> timeouts := timeouts app @
             [\<lparr> timer_id = nextTimerId app, timer_delay = delay, timer_closure = cl \<rparr>],
          nextTimerId := nextTimerId app + 1 \<rparr>"

definition clearInterval :: "nat \<Rightarrow> App \<Rightarrow> App" where
  "clearInterval i app = app\<lparr> intervals := filter (\<lambda>t. timer_id t \<noteq> i) (intervals app) \<rparr>"

text \<open>\<open>processFrame\<close> up to its \<open>await\<close>.\<close>

definition processFrame_begin ::
  "Closure \<Rightarrow> bool \<Rightarrow> CameraViewHandle option \<Rightarrow> App \<Rightarrow> App" where
  "processFrame_begin cl triggeredByAuto cameraRef app =
     (if \<not> cl_isCameraActive cl \<or> (processingRef app \<and> triggeredByAuto) then app
      else
        case (case cameraRef of
                None \<Rightarrow> None
              | Some cam \<Rightarrow> captureFrame (cam_host cam) (cam_videoRef cam)) of
          None \<Rightarrow> app
        | Some base64Image \<Rightarrow>
            if base64Image = [] then app
            else app\<lparr> isProcessing := True,
                      processingRef := True,
                      awaiting := awaiting app @
                        [\<lparr> pa_base64Image = base64Image, pa_closure = cl,
                           pa_triggeredByAuto = triggeredByAuto \<rparr>] \<rparr>)"

text \<open>The transcript update of \<open>processFrame\<close>.\<close>

definition insertTranscript :: "AnalysisResult \<Rightarrow> AnalysisResult list \<Rightarrow> AnalysisResult list" where
  "insertTranscript newEntry prev = take 10 (newEntry # prev)"

definition makeEntry :: "AnalysisOutput \<Rightarrow> nat \<Rightarrow> AnalysisResult" where
  "makeEntry result now =
     \<lparr> entry_text = resp_text result,
       priority = (if isUrgent result then urgent else normal),
       timestamp = now \<rparr>"

text \<open>\<open>processFrame\<close> from its \<open>await\<close> on: \<open>try\<close>, \<open>catch\<close>, \<open>finally\<close>.\<close>

definition processFrame_resume ::
  "AnalysisHost \<Rightarrow> nat \<Rightarrow> PendingAnalysis \<Rightarrow> App \<Rightarrow> App" where
  "processFrame_resume service now pa app =
     (let cl = pa_closure pa;
          app1 =
            (case analyzeImage service (pa_base64Image pa) (cl_currentMode cl)
                    (verbosity (cl_settings cl)) of
               Inr result \<Rightarrow>
                 (let newEntry = makeEntry result now
                  in app\<lparr> transcripts := insertTranscript newEntry (transcripts app),
                          ttsService := speak (resp_text result) (priority newEntry)
                                          (cl_settings cl) (ttsService app) \<rparr>)
             | Inl err \<Rightarrow> app\<lparr> errorMsg := Some ''Failed to analyze scene.'' \<rparr>)
      in app1\<lparr> isProcessing := False, processingRef := False \<rparr>)"

definition handleModeSelect :: "Closure \<Rightarrow> AppMode \<Rightarrow> App \<Rightarrow> App" where
  "handleModeSelect cl mode app =
     (let app1 = app\<lparr> currentMode := mode \<rparr>;
          app2 = app1\<lparr> ttsService :=
                   speak (replace_first CHR ''_'' CHR '' '' (toLowerCase (AppMode_value mode))
                            @ '' mode selected'')
                         urgent (cl_settings cl) (ttsService app1) \<rparr>
      in if \<not> autoNarration (cl_settings cl) \<and> cl_isCameraActive cl
         then setTimeout cl 500 app2
         else app2)"

definition toggleCamera :: "Closure \<Rightarrow> App \<Rightarrow> App" where
  "toggleCamera cl app =
     (let newState = \<not> cl_isCameraActive cl
      in app\<lparr> isCameraActive := newState,
              ttsService := speak (if newState then ''Camera started'' else ''Camera stopped'')
                              urgent (cl_settings cl) (ttsService app) \<rparr>)"

text \<open>The auto-narration effect: its body, and the cleanup it returns.\<close>

definition autoNarration_effect :: "Closure \<Rightarrow> CameraViewHandle option \<Rightarrow> App \<Rightarrow> App" where
  "autoNarration_effect cl cameraRef app =
     (if cl_isCameraActive cl \<and> autoNarration (cl_settings cl)
      then
        let app1 = processFrame_begin cl True cameraRef app;
            handle = nextTimerId app1
        in (setInterval cl (autoInterval (cl_settings cl)) app1)\<lparr> autoIntervalRef := Some handle \<rparr>
      else
        (case autoIntervalRef app of
           None \<Rightarrow> app
         | Some i \<Rightarrow> if i \<noteq> 0 then (clearInterval i app)\<lparr> autoIntervalRef := None \<rparr> else app))"

definition autoNarration_cleanup :: "App \<Rightarrow> App" where
  "autoNarration_cleanup app =
     (case autoIntervalRef app of
        None \<Rightarrow> app
      | Some i \<Rightarrow> if i \<noteq> 0 then clearInterval i app else app)"

text \<open>
  A commit after a handler: when a dependency of the effect changed, the cleanup of the
  previous run comes first, then the body with the values of the new render.
\<close>

definition commit :: "bool \<Rightarrow> CameraViewHandle option \<Rightarrow> App \<Rightarrow> App" where
  "commit depsChanged cameraRef app =
     (if depsChanged
      then autoNarration_effect (render app) cameraRef (autoNarration_cleanup app)
      else app)"

section \<open>The application as a transition system\<close>

text \<open>
  Everything that can happen to the mounted component: the user's actions on the
  controls, the host firing a timer, an awaited analysis settling, the speech device
  finishing an utterance.
\<close>

datatype Event =
    ClickToggleCamera
  | ClickToggleAuto
  | ChangeSpeechRate real
  | ClickVerbosity Verbosity
  | ChangeAutoInterval nat
  | ClickMode AppMode
  | ClickAnalyzeNow
  | IntervalTick nat
  | TimeoutExpire nat
  | AnalysisSettles nat AnalysisHost nat
  | UtteranceEnds

text \<open>
  Which events the rendered page admits: the auto toggle is disabled while the camera is
  off, the button of the current mode while processing, the manual button is rendered
  only with the camera on and auto-narration off and is disabled while processing; the
  interval selector offers three periods.
\<close>

fun enabled :: "Event \<Rightarrow> App \<Rightarrow> bool" where
  "enabled ClickToggleCamera app = True"
| "enabled ClickToggleAuto app = isCameraActive app"
| "enabled (ChangeSpeechRate r) app = (1 / 2 \<le> r \<and> r \<le> 2)"
| "enabled (ClickVerbosity v) app = True"
| "enabled (ChangeAutoInterval n) app = (n = 2000 \<or> n = 4000 \<or> n = 8000)"
| "enabled (ClickMode m) app = (\<not> (isProcessing app \<and> m = currentMode app))"
| "enabled ClickAnalyzeNow app =
     (isCameraActive app \<and> \<not> autoNarration (settings app) \<and> \<not> isProcessing app)"
| "enabled (IntervalTick i) app = (i \<in> timer_id ` set (intervals app))"
| "enabled (TimeoutExpire i) app = (i \<in> timer_id ` set (timeouts app))"
| "enabled (AnalysisSettles k service now) app = (k < length (awaiting app))"
| "enabled UtteranceEnds app = (utterances (synthesis (ttsService app)) \<noteq> [])"

definition utterance_ends :: "SpeechSynthesis \<Rightarrow> SpeechSynthesis" where
  "utterance_ends d =
     d\<lparr> utterances := tl (utterances d), speaking := (tl (utterances d) \<noteq> []) \<rparr>"

text \<open>
  One event, with what \<open>cameraRef.current\<close> shows while it is handled. A handler runs
  with the values of the current render; the commit follows it.
\<close>

fun step :: "CameraViewHandle option \<Rightarrow> Event \<Rightarrow> App \<Rightarrow> App" where
  "step cameraRef ClickToggleCamera app =
     commit True cameraRef (toggleCamera (render app) app)"
| "step cameraRef ClickToggleAuto app =
     commit True cameraRef
       (app\<lparr> settings := (settings app)\<lparr> autoNarration := \<not> autoNarration (settings app) \<rparr> \<rparr>)"
| "step cameraRef (ChangeSpeechRate r) app =
     commit True cameraRef (app\<lparr> settings := (settings app)\<lparr> speechRate := r \<rparr> \<rparr>)"
| "step cameraRef (ClickVerbosity v) app =
     commit True cameraRef (app\<lparr> settings := (settings app)\<lparr> verbosity := v \<rparr> \<rparr>)"
| "step cameraRef (ChangeAutoInterval n) app =
     commit True cameraRef (app\<lparr> settings := (settings app)\<lparr> autoInterval := n \<rparr> \<rparr>)"
| "step cameraRef (ClickMode m) app =
     commit (m \<noteq> currentMode app) cameraRef (handleModeSelect (render app) m app)"
| "step cameraRef ClickAnalyzeNow app =
     processFrame_begin (render app) False cameraRef app"
| "step cameraRef (IntervalTick i) app =
     (case find (\<lambda>t. timer_id t = i) (intervals app) of
        None \<Rightarrow> app
      | Some t \<Rightarrow> processFrame_begin (timer_closure t) True cameraRef app)"
| "step cameraRef (TimeoutExpire i) app =
     (case find (\<lambda>t. timer_id t = i) (timeouts app) of
        None \<Rightarrow> app
      | Some t \<Rightarrow>
          processFrame_begin (timer_closure t) False cameraRef
            (app\<lparr> timeouts := filter (\<lambda>t. timer_id t \<noteq> i) (timeouts app) \<rparr>))"
| "step cameraRef (AnalysisSettles k service now) app =
     (if k < length (awaiting app)
      then processFrame_resume service now (awaiting app ! k)
             (app\<lparr> awaiting := take k (awaiting app) @ drop (Suc k) (awaiting app) \<rparr>)
      else app)"
| "step cameraRef UtteranceEnds app =
     app\<lparr> ttsService := (ttsService app)\<lparr> synthesis := utterance_ends (synthesis (ttsService app)) \<rparr> \<rparr>"

text \<open>A run: \<open>None\<close> when some event is not admitted in the state it meets.\<close>

fun run :: "(CameraViewHandle option \<times> Event) list \<Rightarrow> App \<Rightarrow> App option" where
  "run [] app = Some app"
| "run ((cameraRef, e) # evs) app =
     (if enabled e app then run evs (step cameraRef e app) else None)"

text \<open>The component after mounting, over a given speech device.\<close>

definition initialApp :: "SpeechSynthesis \<Rightarrow> App" where
  "initialApp device =
     \<lparr> isCameraActive = False,
       currentMode = GENERAL,
       isProcessing = False,
       transcripts = [],
       errorMsg = None,
       settings = \<lparr> verbosity = STANDARD, speechRate = 1, autoNarration = False,
                    autoInterval = 4000 \<rparr>,
       processingRef = False,
       autoIntervalRef = None,
       ttsService = \<lparr> synthesis = device, currentUtterance = None \<rparr>,
       intervals = [],
       timeouts = [],
       nextTimerId = 1,
       awaiting = [] \<rparr>"

text \<open>The number of auto-triggered analyses in flight.\<close>

definition autoInFlight :: "App \<Rightarrow> nat" where
  "autoInFlight app = length (filter pa_triggeredByAuto (awaiting app))"

section \<open>Invariants of the transition system\<close>

text \<open>
  The recurring schedule: the ref names a timer exactly when the camera is on with
  auto-narration, and then that timer is the only one, with the current period and the
  callbacks of the current render.
\<close>

definition schedule_inv :: "App \<Rightarrow> bool" where
  "schedule_inv app \<longleftrightarrow>
     0 < nextTimerId app \<and>
     (case autoIntervalRef app of
        None \<Rightarrow> \<not> (isCameraActive app \<and> autoNarration (settings app)) \<and> intervals app = []
      | Some i \<Rightarrow>
          isCameraActive app \<and> autoNarration (settings app) \<and> 0 < i \<and> i < nextTimerId app \<and>
          intervals app =
            [\<lparr> timer_id = i, timer_delay = autoInterval (settings app),
               timer_closure = render app \<rparr>])"

text \<open>What a handler leaves behind for the commit that follows it.\<close>

definition schedule_loose :: "App \<Rightarrow> bool" where
  "schedule_loose app \<longleftrightarrow>
     0 < nextTimerId app \<and>
     (case autoIntervalRef app of
        None \<Rightarrow> intervals app = []
      | Some i \<Rightarrow> 0 < i \<and> i < nextTimerId app \<and> list_all (\<lambda>t. timer_id t = i) (intervals app))"

section \<open>Case-insensitive matching of ASCII text\<close>


definition ascii_toUpperCase_char :: "char \<Rightarrow> char" where
  "ascii_toUpperCase_char c =
     (let n = (of_char c :: nat) in if 97 \<le> n \<and> n \<le> 122 then char_of (n - 32) else c)"

definition ascii_toUpperCase :: "string \<Rightarrow> string" where
  "ascii_toUpperCase s = map ascii_toUpperCase_char s"



section \<open>Properties of the analysis client\<close>





text \<open>
  Claim C6. Whatever the service does, \<open>analyzeImage\<close> returns a value and no
  exception leaves it; when the service call fails, the value is the fixed fallback:
  the connection-error text, not urgent, hence an entry of priority normal.
\<close>

theorem analyzeImage_never_fails:
  "\<exists>out. analyzeImage service img m v = Inr out \<and>
     (\<forall>err. generateContent service (buildRequest img m v) = Rejected err \<longrightarrow>
        out = \<lparr> resp_text = ''Connection error. Please try again.'', isUrgent = False \<rparr> \<and>
        priority (makeEntry out now) = normal)"
proof (cases "analyzeImage_try service img m v")
  case (Inl err)
  then show ?thesis by (simp add: analyzeImage_def makeEntry_def)
next
  case (Inr out)
  then have "\<forall>err. generateContent service (buildRequest img m v) \<noteq> Rejected err"
    by (auto simp: analyzeImage_try_def)
  with Inr show ?thesis by (simp add: analyzeImage_def)
qed

theorem analyzeImage_never_fails_witness:
  "\<exists>out. analyzeImage \<lparr> generateContent = (\<lambda>_. Rejected ''offline''),
                          toUpperCase = ascii_toUpperCase \<rparr>
           ''abc'' GENERAL STANDARD = Inr out \<and>
         out = \<lparr> resp_text = ''Connection error. Please try again.'', isUrgent = False \<rparr> \<and>
         priority (makeEntry out 0) = normal"
  using analyzeImage_never_fails
          [of "\<lparr> generateContent = (\<lambda>_. Rejected ''offline''), toUpperCase = ascii_toUpperCase \<rparr>"
              "''abc''" GENERAL STANDARD 0]
  by simp








text \<open>
  Claim C7. The instruction is a function of mode and verbosity alone: a task
  description fixed by the mode, a space, a length budget fixed by the verbosity (under
  15 words for MINIMAL, under 40 for STANDARD, up to 70 for DETAILED), and always the
  rule to start with WARNING: on immediate danger. The navigation task names hazards,
  and the instruction for (NAVIGATION, MINIMAL) is the string given.
\<close>

theorem getPromptForMode_structure:
  "(\<exists>task budget.
      (\<forall>m v. getPromptForMode m v =
         task m @ '' '' @ budget v @
         '' If you see an immediate danger (car, drop-off, fire), start with 'WARNING:'.'') \<and>
      includes_str (budget MINIMAL) ''under 15 words'' \<and>
      includes_str (budget STANDARD) ''under 40 words'' \<and>
      includes_str (budget DETAILED) ''up to 70 words'' \<and>
      includes_str (task NAVIGATION) ''hazards'') \<and>
   getPromptForMode NAVIGATION MINIMAL =
     ''Navigation Mode. Focus ONLY on the path ahead. Identify obstacles, clear paths, doorways, changes in elevation (stairs, curbs), and hazards. Give specific directions and distances. Keep response under 15 words. Only critical info and hazards. If you see an immediate danger (car, drop-off, fire), start with 'WARNING:'.''"
proof (rule conjI)
  show "getPromptForMode NAVIGATION MINIMAL =
     ''Navigation Mode. Focus ONLY on the path ahead. Identify obstacles, clear paths, doorways, changes in elevation (stairs, curbs), and hazards. Give specific directions and distances. Keep response under 15 words. Only critical info and hazards. If you see an immediate danger (car, drop-off, fire), start with 'WARNING:'.''"
    by code_simp
  show "\<exists>task budget.
      (\<forall>m v. getPromptForMode m v =
         task m @ '' '' @ budget v @
         '' If you see an immediate danger (car, drop-off, fire), start with 'WARNING:'.'') \<and>
      includes_str (budget MINIMAL) ''under 15 words'' \<and>
      includes_str (budget STANDARD) ''under 40 words'' \<and>
      includes_str (budget DETAILED) ''up to 70 words'' \<and>
      includes_str (task NAVIGATION) ''hazards''"
    unfolding getPromptForMode_def Let_def
    apply (intro exI conjI allI)
        apply (rule refl)
       apply code_simp
      apply code_simp
     apply code_simp
    apply code_simp
    done
qed

section \<open>Properties of the speech arbiter and of the transcript log\<close>

lemma utterances_cancel: "utterances (synthesis_cancel d) = []"
  by (simp add: synthesis_cancel_def)

lemma utterances_speak: "utterances (synthesis_speak u d) = utterances d @ [u]"
  by (simp add: synthesis_speak_def)

lemma speak_nonempty:
  "txt \<noteq> [] \<Longrightarrow>
   \<exists>u. utt_text u = txt \<and> utt_rate u = speechRate st \<and>
       utt_pitch u = (if prio = urgent then 11 / 10 else 1) \<and>
       currentUtterance (speak txt prio st tts) = Some u \<and>
       utterances (synthesis (speak txt prio st tts)) =
         (if prio = urgent \<or> (speaking (synthesis tts) \<and> autoNarration st)
          then [u] else utterances (synthesis tts) @ [u])"
  by (simp add: speak_def Let_def utterances_cancel utterances_speak)

text \<open>
  Claim C3. \<open>speak\<close> with an empty text changes nothing. With a text: urgent
  priority leaves the device holding the new utterance alone, all current and queued
  speech cancelled; normal priority while the device is speaking and auto-narration is
  on does the same; normal priority in every other case cancels nothing and appends the
  new utterance to what the device already holds.
\<close>

theorem speak_arbitration:
  "speak [] prio st tts = tts \<and>
   (txt \<noteq> [] \<longrightarrow>
      (\<exists>u. utt_text u = txt \<and> utt_rate u = speechRate st \<and>
           utterances (synthesis (speak txt urgent st tts)) = [u]) \<and>
      (speaking (synthesis tts) \<and> autoNarration st \<longrightarrow>
         (\<exists>u. utt_text u = txt \<and> utt_rate u = speechRate st \<and>
              utterances (synthesis (speak txt normal st tts)) = [u])) \<and>
      (\<not> (speaking (synthesis tts) \<and> autoNarration st) \<longrightarrow>
         (\<exists>u. utt_text u = txt \<and> utt_rate u = speechRate st \<and>
              utterances (synthesis (speak txt normal st tts)) = utterances (synthesis tts) @ [u])))"
proof (intro conjI impI)
  show "speak [] prio st tts = tts" by (simp add: speak_def)
next
  assume "txt \<noteq> []"
  with speak_nonempty[of "txt" st urgent tts]
  show "\<exists>u. utt_text u = txt \<and> utt_rate u = speechRate st \<and>
           utterances (synthesis (speak txt urgent st tts)) = [u]"
    by auto
next
  assume "txt \<noteq> []" and "speaking (synthesis tts) \<and> autoNarration st"
  with speak_nonempty[of "txt" st normal tts]
  show "\<exists>u. utt_text u = txt \<and> utt_rate u = speechRate st \<and>
              utterances (synthesis (speak txt normal st tts)) = [u]"
    by auto
next
  assume "txt \<noteq> []" and "\<not> (speaking (synthesis tts) \<and> autoNarration st)"
  with speak_nonempty[of "txt" st normal tts]
  show "\<exists>u. utt_text u = txt \<and> utt_rate u = speechRate st \<and>
              utterances (synthesis (speak txt normal st tts)) = utterances (synthesis tts) @ [u]"
    by auto
qed

lemma insertTranscript_length: "length (insertTranscript e ts) \<le> 10"
  by (simp add: insertTranscript_def)

lemma take_append_take: "take n (xs @ take n ys) = take n (xs @ ys)"
  by (simp add: min_def)

lemma foldl_insertTranscript:
  "length ts \<le> 10 \<Longrightarrow>
   foldl (\<lambda>ts e. insertTranscript e ts) ts es = take 10 (rev es @ ts)"
proof (induction es arbitrary: ts)
  case Nil
  then show ?case by simp
next
  case (Cons e es)
  have "foldl (\<lambda>ts e. insertTranscript e ts) (insertTranscript e ts) es
          = take 10 (rev es @ insertTranscript e ts)"
    by (rule Cons.IH) (rule insertTranscript_length)
  also have "\<dots> = take 10 (rev es @ e # ts)"
    by (simp only: insertTranscript_def take_append_take)
  finally show ?case by simp
qed

text \<open>
  Claim C4. Inserting any sequence of results into the empty log leaves the last ten,
  newest first, so never more than ten entries; an insertion into a log of ten puts the
  new entry in front and drops the oldest, and below ten it only puts it in front. A
  settled analysis updates the log by exactly this insertion.
\<close>

lemma analyzeImage_returns: "\<exists>out. analyzeImage service img m v = Inr out"
  by (cases "analyzeImage_try service img m v") (simp_all add: analyzeImage_def)

lemma processFrame_resume_transcripts:
  "\<exists>out. analyzeImage service (pa_base64Image pa) (cl_currentMode (pa_closure pa))
            (verbosity (cl_settings (pa_closure pa))) = Inr out \<and>
         transcripts (processFrame_resume service now pa app) =
           insertTranscript (makeEntry out now) (transcripts app)"
proof -
  obtain out where
    "analyzeImage service (pa_base64Image pa) (cl_currentMode (pa_closure pa))
       (verbosity (cl_settings (pa_closure pa))) = Inr out"
    using analyzeImage_returns by blast
  then show ?thesis by (simp add: processFrame_resume_def Let_def)
qed

theorem transcript_bounded:
  "length (foldl (\<lambda>ts e. insertTranscript e ts) [] es) \<le> 10 \<and>
   foldl (\<lambda>ts e. insertTranscript e ts) [] es = take 10 (rev es) \<and>
   (length ts = 10 \<longrightarrow> insertTranscript e ts = e # butlast ts) \<and>
   (length ts < 10 \<longrightarrow> insertTranscript e ts = e # ts) \<and>
   (\<exists>out. transcripts (processFrame_resume service now pa app) =
            insertTranscript (makeEntry out now) (transcripts app))"
proof (intro conjI impI)
  show "\<exists>out. transcripts (processFrame_resume service now pa app) =
            insertTranscript (makeEntry out now) (transcripts app)"
    using processFrame_resume_transcripts[of service pa now app] by blast
  show eq: "foldl (\<lambda>ts e. insertTranscript e ts) [] es = take 10 (rev es)"
    using foldl_insertTranscript[of "[]" es] by simp
  show "length (foldl (\<lambda>ts e. insertTranscript e ts) [] es) \<le> 10"
    unfolding eq by simp
  show "insertTranscript e ts = e # butlast ts" if "length ts = 10"
    using that by (simp add: insertTranscript_def butlast_conv_take)
  show "insertTranscript e ts = e # ts" if "length ts < 10"
    using that by (simp add: insertTranscript_def)
qed

theorem speak_arbitration_witness:
  "''WARNING: step ahead'' \<noteq> [] \<and>
   (\<exists>u. utt_text u = ''WARNING: step ahead'' \<and> utt_rate u = 1 \<and>
     utterances (synthesis (speak ''WARNING: step ahead'' urgent
        \<lparr> verbosity = STANDARD, speechRate = 1, autoNarration = True, autoInterval = 4000 \<rparr>
        \<lparr> synthesis = \<lparr> speaking = True,
             utterances = [\<lparr> utt_text = ''object to your left'', utt_rate = 1, utt_pitch = 1,
                             utt_volume = 1, utt_voice = None \<rparr>],
             voices = [] \<rparr>,
          currentUtterance = None \<rparr>)) = [u]) \<and>
   (\<exists>u. utt_text u = ''WARNING: step ahead'' \<and> utt_rate u = 1 \<and>
     utterances (synthesis (speak ''WARNING: step ahead'' normal
        \<lparr> verbosity = STANDARD, speechRate = 1, autoNarration = True, autoInterval = 4000 \<rparr>
        \<lparr> synthesis = \<lparr> speaking = True,
             utterances = [\<lparr> utt_text = ''object to your left'', utt_rate = 1, utt_pitch = 1,
                             utt_volume = 1, utt_voice = None \<rparr>],
             voices = [] \<rparr>,
          currentUtterance = None \<rparr>)) = [u]) \<and>
   (\<exists>u. utt_text u = ''WARNING: step ahead'' \<and> utt_rate u = 1 \<and>
     utterances (synthesis (speak ''WARNING: step ahead'' normal
        \<lparr> verbosity = STANDARD, speechRate = 1, autoNarration = False, autoInterval = 4000 \<rparr>
        \<lparr> synthesis = \<lparr> speaking = True,
             utterances = [\<lparr> utt_text = ''object to your left'', utt_rate = 1, utt_pitch = 1,
                             utt_volume = 1, utt_voice = None \<rparr>],
             voices = [] \<rparr>,
          currentUtterance = None \<rparr>)) =
       [\<lparr> utt_text = ''object to your left'', utt_rate = 1, utt_pitch = 1,
          utt_volume = 1, utt_voice = None \<rparr>, u])"
  using speak_arbitration
          [of urgent
              "\<lparr> verbosity = STANDARD, speechRate = 1, autoNarration = True, autoInterval = 4000 \<rparr>"
              "\<lparr> synthesis = \<lparr> speaking = True,
                   utterances = [\<lparr> utt_text = ''object to your left'', utt_rate = 1, utt_pitch = 1,
                                   utt_volume = 1, utt_voice = None \<rparr>],
                   voices = [] \<rparr>,
                 currentUtterance = None \<rparr>"
              "''WARNING: step ahead''"]
        speak_arbitration
          [of urgent
              "\<lparr> verbosity = STANDARD, speechRate = 1, autoNarration = False, autoInterval = 4000 \<rparr>"
              "\<lparr> synthesis = \<lparr> speaking = True,
                   utterances = [\<lparr> utt_text = ''object to your left'', utt_rate = 1, utt_pitch = 1,
                                   utt_volume = 1, utt_voice = None \<rparr>],
                   voices = [] \<rparr>,
                 currentUtterance = None \<rparr>"
              "''WARNING: step ahead''"]
  by simp

theorem transcript_bounded_witness:
  "length (map (\<lambda>n. \<lparr> entry_text = ''door ahead'', priority = normal, timestamp = n \<rparr>)
             [10, 9, 8, 7, 6, 5, 4, 3, 2, 1]) = 10 \<and>
   insertTranscript \<lparr> entry_text = ''WARNING: car'', priority = urgent, timestamp = 11 \<rparr>
     (map (\<lambda>n. \<lparr> entry_text = ''door ahead'', priority = normal, timestamp = n \<rparr>)
        [10, 9, 8, 7, 6, 5, 4, 3, 2, 1])
     = \<lparr> entry_text = ''WARNING: car'', priority = urgent, timestamp = 11 \<rparr> #
       map (\<lambda>n. \<lparr> entry_text = ''door ahead'', priority = normal, timestamp = n \<rparr>)
        [10, 9, 8, 7, 6, 5, 4, 3, 2] \<and>
   length ([] :: AnalysisResult list) < 10 \<and>
   insertTranscript \<lparr> entry_text = ''WARNING: car'', priority = urgent, timestamp = 11 \<rparr> []
     = [\<lparr> entry_text = ''WARNING: car'', priority = urgent, timestamp = 11 \<rparr>]"
  using transcript_bounded
          [of "[]" "map (\<lambda>n. \<lparr> entry_text = ''door ahead'', priority = normal, timestamp = n \<rparr>)
                      [10, 9, 8, 7, 6, 5, 4, 3, 2, 1]"
              "\<lparr> entry_text = ''WARNING: car'', priority = urgent, timestamp = 11 \<rparr>"]
        transcript_bounded
          [of "[]" "[]" "\<lparr> entry_text = ''WARNING: car'', priority = urgent, timestamp = 11 \<rparr>"]
  by simp

section \<open>Properties of the scheduler\<close>

lemma processFrame_begin_keeps:
  "isCameraActive (processFrame_begin cl a cam app) = isCameraActive app"
  "currentMode (processFrame_begin cl a cam app) = currentMode app"
  "settings (processFrame_begin cl a cam app) = settings app"
  "autoIntervalRef (processFrame_begin cl a cam app) = autoIntervalRef app"
  "intervals (processFrame_begin cl a cam app) = intervals app"
  "timeouts (processFrame_begin cl a cam app) = timeouts app"
  "nextTimerId (processFrame_begin cl a cam app) = nextTimerId app"
  "ttsService (processFrame_begin cl a cam app) = ttsService app"
  "transcripts (processFrame_begin cl a cam app) = transcripts app"
  "errorMsg (processFrame_begin cl a cam app) = errorMsg app"
  by (simp_all add: processFrame_begin_def split: option.splits)

lemma render_processFrame_begin: "render (processFrame_begin cl a cam app) = render app"
  by (simp add: render_def processFrame_begin_keeps)

lemma processFrame_resume_keeps:
  "isCameraActive (processFrame_resume svc now pa app) = isCameraActive app"
  "currentMode (processFrame_resume svc now pa app) = currentMode app"
  "settings (processFrame_resume svc now pa app) = settings app"
  "autoIntervalRef (processFrame_resume svc now pa app) = autoIntervalRef app"
  "intervals (processFrame_resume svc now pa app) = intervals app"
  "timeouts (processFrame_resume svc now pa app) = timeouts app"
  "nextTimerId (processFrame_resume svc now pa app) = nextTimerId app"
  "awaiting (processFrame_resume svc now pa app) = awaiting app"
  "processingRef (processFrame_resume svc now pa app) = False"
  by (simp_all add: processFrame_resume_def Let_def split: sum.splits)

lemma handleModeSelect_keeps:
  "isCameraActive (handleModeSelect cl m app) = isCameraActive app"
  "currentMode (handleModeSelect cl m app) = m"
  "settings (handleModeSelect cl m app) = settings app"
  "autoIntervalRef (handleModeSelect cl m app) = autoIntervalRef app"
  "intervals (handleModeSelect cl m app) = intervals app"
  "awaiting (handleModeSelect cl m app) = awaiting app"
  "processingRef (handleModeSelect cl m app) = processingRef app"
  "nextTimerId app \<le> nextTimerId (handleModeSelect cl m app)"
  by (simp_all add: handleModeSelect_def Let_def setTimeout_def)

lemma toggleCamera_keeps:
  "isCameraActive (toggleCamera cl app) = (\<not> cl_isCameraActive cl)"
  "currentMode (toggleCamera cl app) = currentMode app"
  "settings (toggleCamera cl app) = settings app"
  "autoIntervalRef (toggleCamera cl app) = autoIntervalRef app"
  "intervals (toggleCamera cl app) = intervals app"
  "awaiting (toggleCamera cl app) = awaiting app"
  "processingRef (toggleCamera cl app) = processingRef app"
  "nextTimerId (toggleCamera cl app) = nextTimerId app"
  by (simp_all add: toggleCamera_def Let_def)

lemma schedule_inv_loose: "schedule_inv app \<Longrightarrow> schedule_loose app"
  by (auto simp: schedule_inv_def schedule_loose_def split: option.splits)

lemma cleanup_clears:
  "schedule_loose app \<Longrightarrow> intervals (autoNarration_cleanup app) = []"
  by (auto simp: schedule_loose_def autoNarration_cleanup_def clearInterval_def
                 filter_empty_conv list_all_iff split: option.splits)

lemma cleanup_keeps:
  "isCameraActive (autoNarration_cleanup app) = isCameraActive app"
  "currentMode (autoNarration_cleanup app) = currentMode app"
  "settings (autoNarration_cleanup app) = settings app"
  "autoIntervalRef (autoNarration_cleanup app) = autoIntervalRef app"
  "nextTimerId (autoNarration_cleanup app) = nextTimerId app"
  "awaiting (autoNarration_cleanup app) = awaiting app"
  "processingRef (autoNarration_cleanup app) = processingRef app"
  "timeouts (autoNarration_cleanup app) = timeouts app"
  "ttsService (autoNarration_cleanup app) = ttsService app"
  by (simp_all add: autoNarration_cleanup_def clearInterval_def split: option.splits)

lemma render_cleanup: "render (autoNarration_cleanup app) = render app"
  by (simp add: render_def cleanup_keeps)

lemma effect_establishes:
  assumes "0 < nextTimerId app" "intervals app = []"
    and "\<And>i. autoIntervalRef app = Some i \<Longrightarrow> 0 < i"
  shows "schedule_inv (autoNarration_effect (render app) cam app)"
proof (cases "isCameraActive app \<and> autoNarration (settings app)")
  case True
  then show ?thesis
    using assms(1,2)
    by (simp add: autoNarration_effect_def schedule_inv_def Let_def setInterval_def
                  processFrame_begin_keeps render_def)
next
  case False
  then have eff: "autoNarration_effect (render app) cam app =
          (case autoIntervalRef app of
             None \<Rightarrow> app
           | Some i \<Rightarrow> if i \<noteq> 0 then (clearInterval i app)\<lparr> autoIntervalRef := None \<rparr> else app)"
    by (auto simp add: autoNarration_effect_def render_def)
  show ?thesis
  proof (cases "autoIntervalRef app")
    case None
    with False assms(1,2) show ?thesis
      unfolding eff by (simp add: schedule_inv_def)
  next
    case (Some i)
    with assms(3) have "i \<noteq> 0" by auto
    with Some False assms(1,2) show ?thesis
      unfolding eff by (simp add: schedule_inv_def clearInterval_def)
  qed
qed

lemma commit_establishes:
  assumes "schedule_loose app"
  shows "schedule_inv (commit True cam app)"
proof -
  have "schedule_inv (autoNarration_effect (render (autoNarration_cleanup app)) cam
                        (autoNarration_cleanup app))"
  proof (rule effect_establishes)
    show "0 < nextTimerId (autoNarration_cleanup app)"
      using assms by (simp add: cleanup_keeps schedule_loose_def)
    show "intervals (autoNarration_cleanup app) = []"
      using assms by (rule cleanup_clears)
    show "0 < i" if "autoIntervalRef (autoNarration_cleanup app) = Some i" for i
      using that assms by (simp add: cleanup_keeps schedule_loose_def)
  qed
  then show ?thesis by (simp add: commit_def render_cleanup)
qed

lemma schedule_loose_cong:
  assumes "schedule_loose app"
    and "intervals app' = intervals app" "autoIntervalRef app' = autoIntervalRef app"
    and "nextTimerId app \<le> nextTimerId app'"
  shows "schedule_loose app'"
  using assms by (auto simp: schedule_loose_def split: option.splits)

lemma schedule_inv_cong:
  assumes "schedule_inv app"
    and "intervals app' = intervals app" "autoIntervalRef app' = autoIntervalRef app"
    and "nextTimerId app \<le> nextTimerId app'"
    and "isCameraActive app' = isCameraActive app" "settings app' = settings app"
    and "currentMode app' = currentMode app"
  shows "schedule_inv app'"
  using assms by (auto simp: schedule_inv_def render_def split: option.splits)

lemma schedule_inv_step:
  assumes "schedule_inv app"
  shows "schedule_inv (step cam e app)"
proof (cases e)
  case ClickToggleCamera
  have "schedule_loose (toggleCamera (render app) app)"
    by (rule schedule_loose_cong[OF schedule_inv_loose[OF assms]])
       (simp_all add: toggleCamera_keeps)
  then show ?thesis unfolding ClickToggleCamera step.simps by (rule commit_establishes)
next
  case ClickToggleAuto
  have "schedule_loose (app\<lparr> settings := (settings app)\<lparr> autoNarration := \<not> autoNarration (settings app) \<rparr> \<rparr>)"
    by (rule schedule_loose_cong[OF schedule_inv_loose[OF assms]]) simp_all
  then show ?thesis unfolding ClickToggleAuto step.simps by (rule commit_establishes)
next
  case (ChangeSpeechRate r)
  have "schedule_loose (app\<lparr> settings := (settings app)\<lparr> speechRate := r \<rparr> \<rparr>)"
    by (rule schedule_loose_cong[OF schedule_inv_loose[OF assms]]) simp_all
  then show ?thesis unfolding ChangeSpeechRate step.simps by (rule commit_establishes)
next
  case (ClickVerbosity v)
  have "schedule_loose (app\<lparr> settings := (settings app)\<lparr> verbosity := v \<rparr> \<rparr>)"
    by (rule schedule_loose_cong[OF schedule_inv_loose[OF assms]]) simp_all
  then show ?thesis unfolding ClickVerbosity step.simps by (rule commit_establishes)
next
  case (ChangeAutoInterval n)
  have "schedule_loose (app\<lparr> settings := (settings app)\<lparr> autoInterval := n \<rparr> \<rparr>)"
    by (rule schedule_loose_cong[OF schedule_inv_loose[OF assms]]) simp_all
  then show ?thesis unfolding ChangeAutoInterval step.simps by (rule commit_establishes)
next
  case (ClickMode m)
  show ?thesis
  proof (cases "m = currentMode app")
    case True
    have "schedule_inv (handleModeSelect (render app) m app)"
      by (rule schedule_inv_cong[OF assms]) (simp_all add: handleModeSelect_keeps True)
    then show ?thesis unfolding ClickMode step.simps using True by (simp add: commit_def)
  next
    case False
    have "schedule_loose (handleModeSelect (render app) m app)"
      by (rule schedule_loose_cong[OF schedule_inv_loose[OF assms]])
         (simp_all add: handleModeSelect_keeps)
    then have "schedule_inv (commit True cam (handleModeSelect (render app) m app))"
      by (rule commit_establishes)
    then show ?thesis unfolding ClickMode step.simps using False by simp
  qed
next
  case ClickAnalyzeNow
  show ?thesis unfolding ClickAnalyzeNow step.simps
    by (rule schedule_inv_cong[OF assms]) (simp_all add: processFrame_begin_keeps)
next
  case (IntervalTick i)
  show ?thesis unfolding IntervalTick step.simps
    by (rule schedule_inv_cong[OF assms])
       (simp_all add: processFrame_begin_keeps split: option.splits)
next
  case (TimeoutExpire i)
  show ?thesis unfolding TimeoutExpire step.simps
    by (rule schedule_inv_cong[OF assms])
       (simp_all add: processFrame_begin_keeps split: option.splits)
next
  case (AnalysisSettles k svc now)
  show ?thesis unfolding AnalysisSettles step.simps
    by (rule schedule_inv_cong[OF assms]) (simp_all add: processFrame_resume_keeps)
next
  case UtteranceEnds
  show ?thesis unfolding UtteranceEnds step.simps
    by (rule schedule_inv_cong[OF assms]) simp_all
qed

lemma schedule_inv_initial: "schedule_inv (initialApp device)"
  by (simp add: schedule_inv_def initialApp_def)

lemma schedule_inv_run:
  "schedule_inv app \<Longrightarrow> run evs app = Some app' \<Longrightarrow> schedule_inv app'"
proof (induction evs arbitrary: app)
  case Nil
  then show ?case by simp
next
  case (Cons ce evs)
  obtain cam e where ce: "ce = (cam, e)" by (cases ce)
  from Cons.prems(2) have en: "enabled e app" and r: "run evs (step cam e app) = Some app'"
    unfolding ce by (simp_all split: if_splits)
  from Cons.IH[OF schedule_inv_step[OF Cons.prems(1)] r] show ?case .
qed

lemma commit_intervals:
  assumes "schedule_loose app"
  shows "intervals (commit True cam app) =
           (if isCameraActive app \<and> autoNarration (settings app)
            then [\<lparr> timer_id = nextTimerId app, timer_delay = autoInterval (settings app),
                     timer_closure = render app \<rparr>]
            else [])"
proof -
  have c: "intervals (autoNarration_cleanup app) = []"
    using assms by (rule cleanup_clears)
  show ?thesis
  proof (cases "isCameraActive app \<and> autoNarration (settings app)")
    case True
    then show ?thesis
      using c
      by (simp add: commit_def autoNarration_effect_def render_cleanup Let_def setInterval_def
                    processFrame_begin_keeps cleanup_keeps render_def)
  next
    case False
    then have "intervals (commit True cam app) =
                 intervals (case autoIntervalRef app of
                    None \<Rightarrow> autoNarration_cleanup app
                  | Some i \<Rightarrow> if i \<noteq> 0
                       then (clearInterval i (autoNarration_cleanup app))\<lparr> autoIntervalRef := None \<rparr>
                       else autoNarration_cleanup app)"
      by (auto simp add: commit_def autoNarration_effect_def render_cleanup cleanup_keeps render_def)
    also have "\<dots> = []"
      using c by (simp add: clearInterval_def split: option.splits)
    finally show ?thesis using False by simp
  qed
qed

lemma awaiting_begin_cong:
  "processingRef app' = processingRef app \<Longrightarrow> awaiting app' = awaiting app \<Longrightarrow>
   awaiting (processFrame_begin cl a cam app') = awaiting (processFrame_begin cl a cam app)"
  by (simp add: processFrame_begin_def split: option.splits)

lemma commit_awaiting:
  "awaiting (commit True cam app) =
     (if isCameraActive app \<and> autoNarration (settings app)
      then awaiting (processFrame_begin (render app) True cam app)
      else awaiting app)"
proof (cases "isCameraActive app \<and> autoNarration (settings app)")
  case True
  have "awaiting (processFrame_begin (render app) True cam (autoNarration_cleanup app))
          = awaiting (processFrame_begin (render app) True cam app)"
    by (rule awaiting_begin_cong) (simp_all add: cleanup_keeps)
  with True show ?thesis
    by (simp add: commit_def autoNarration_effect_def render_cleanup Let_def setInterval_def
                  render_def)
next
  case False
  then show ?thesis
    by (auto simp add: commit_def autoNarration_effect_def render_cleanup cleanup_keeps
                       render_def clearInterval_def split: option.splits)
qed

lemma commit_keeps:
  "ttsService (commit b cam app) = ttsService app"
  "timeouts (commit b cam app) = timeouts app"
  "currentMode (commit b cam app) = currentMode app"
  "isCameraActive (commit b cam app) = isCameraActive app"
  "settings (commit b cam app) = settings app"
  by (auto simp add: commit_def autoNarration_effect_def Let_def setInterval_def
                     processFrame_begin_keeps cleanup_keeps clearInterval_def
           split: option.splits)

lemmas eval_defs =
  commit_def toggleCamera_def render_def speak_def synthesis_cancel_def synthesis_speak_def
  autoNarration_effect_def autoNarration_cleanup_def processFrame_begin_def captureFrame_def
  index_at_def initialApp_def setInterval_def setTimeout_def clearInterval_def
  handleModeSelect_def processFrame_resume_def analyzeImage_def analyzeImage_try_def
  makeEntry_def insertTranscript_def autoInFlight_def Let_def

text \<open>
  The gate of \<open>processFrame\<close>, one invocation at a time: an auto-triggered invocation
  that finds the in-flight flag set changes nothing; a manual one with the camera
  active goes on to capture a frame whatever the flag says.
\<close>

lemma processFrame_gate:
  "(processingRef app \<longrightarrow> processFrame_begin cl True cameraRef app = app) \<and>
   (cl_isCameraActive cl \<longrightarrow>
      processFrame_begin cl False cameraRef app =
        (case (case cameraRef of
                 None \<Rightarrow> None
               | Some cam \<Rightarrow> captureFrame (cam_host cam) (cam_videoRef cam)) of
           None \<Rightarrow> app
         | Some img \<Rightarrow>
             if img = [] then app
             else app\<lparr> isProcessing := True, processingRef := True,
                       awaiting := awaiting app @
                         [\<lparr> pa_base64Image = img, pa_closure = cl,
                            pa_triggeredByAuto = False \<rparr>] \<rparr>))"
  by (simp add: processFrame_begin_def)

text \<open>
  Claim C1. The bound the gate is there to give, at most one auto-triggered analysis in
  flight, does not hold in the code: the \<open>finally\<close> block clears the one flag when any
  analysis settles, also while another is still in flight. Camera on; a mode selected,
  which arms the 500 ms timer; auto-narration on, which issues analysis A and starts
  the ticks; the timer fires and a manual analysis M is issued beside A; M settles and
  clears the flag; the next tick finds the flag clear and issues analysis B while A is
  still in flight. Two auto-triggered analyses are then in flight.
\<close>

theorem auto_single_flight_violated:
  "map_option (\<lambda>app. (autoInFlight app,
                      map (\<lambda>pa. (pa_base64Image pa, pa_triggeredByAuto pa)) (awaiting app)))
     (run [(None, ClickToggleCamera),
           (None, ClickMode NAVIGATION),
           (Some \<lparr> cam_host = \<lparr> getContext2d = True,
                                toDataURL = (\<lambda>w h v. ''data:image/jpeg;base64,AAAA'') \<rparr>,
                   cam_videoRef = Some \<lparr> readyState = 4, videoWidth = 1280, videoHeight = 720 \<rparr> \<rparr>,
            ClickToggleAuto),
           (Some \<lparr> cam_host = \<lparr> getContext2d = True,
                                toDataURL = (\<lambda>w h v. ''data:image/jpeg;base64,MMMM'') \<rparr>,
                   cam_videoRef = Some \<lparr> readyState = 4, videoWidth = 1280, videoHeight = 720 \<rparr> \<rparr>,
            TimeoutExpire 1),
           (None, AnalysisSettles 1
                    \<lparr> generateContent = (\<lambda>r. Resolved (Some ''A door ahead.'')),
                      toUpperCase = ascii_toUpperCase \<rparr>
                    1000),
           (Some \<lparr> cam_host = \<lparr> getContext2d = True,
                                toDataURL = (\<lambda>w h v. ''data:image/jpeg;base64,BBBB'') \<rparr>,
                   cam_videoRef = Some \<lparr> readyState = 4, videoWidth = 1280, videoHeight = 720 \<rparr> \<rparr>,
            IntervalTick 2)]
        (initialApp \<lparr> speaking = False, utterances = [], voices = [] \<rparr>))
   = Some (2, [(''AAAA'', True), (''BBBB'', True)])"
  by (simp add: eval_defs)

text \<open>
  Claim C9. \<open>captureFrame\<close> is a total function into an optional string: it has
  no failing path, and returns nothing when there is no video element or the element is
  not in ready state 4. When the capture gives nothing, or an empty string,
  \<open>processFrame\<close> returns the state as it found it: no error message, no flag set,
  no analysis issued.
\<close>

theorem no_frame_skips:
  "((videoRef = None \<or> (\<exists>video. videoRef = Some video \<and> readyState video \<noteq> 4))
      \<longrightarrow> captureFrame host videoRef = None) \<and>
   ((cameraRef = None \<or>
     (\<exists>cam. cameraRef = Some cam \<and>
        (captureFrame (cam_host cam) (cam_videoRef cam) = None \<or>
         captureFrame (cam_host cam) (cam_videoRef cam) = Some [])))
      \<longrightarrow> processFrame_begin cl triggeredByAuto cameraRef app = app \<and>
          step cameraRef ClickAnalyzeNow app = app)"
proof (intro conjI impI)
  assume "videoRef = None \<or> (\<exists>video. videoRef = Some video \<and> readyState video \<noteq> 4)"
  then show "captureFrame host videoRef = None"
  proof
    assume "videoRef = None"
    then show ?thesis by (simp add: captureFrame_def)
  next
    assume "\<exists>video. videoRef = Some video \<and> readyState video \<noteq> 4"
    then obtain video where "videoRef = Some video" "readyState video \<noteq> 4" by blast
    then show ?thesis by (simp add: captureFrame_def)
  qed
next
  assume absent: "cameraRef = None \<or>
     (\<exists>cam. cameraRef = Some cam \<and>
        (captureFrame (cam_host cam) (cam_videoRef cam) = None \<or>
         captureFrame (cam_host cam) (cam_videoRef cam) = Some []))"
  have skip: "processFrame_begin c a cameraRef app = app" for c a
  proof (cases cameraRef)
    case None
    then show ?thesis by (simp add: processFrame_begin_def)
  next
    case (Some cam)
    with absent have "captureFrame (cam_host cam) (cam_videoRef cam) = None \<or>
         captureFrame (cam_host cam) (cam_videoRef cam) = Some []"
      by simp
    then show ?thesis
      using Some by (auto simp: processFrame_begin_def)
  qed
  show "processFrame_begin cl triggeredByAuto cameraRef app = app"
    by (rule skip)
  show "step cameraRef ClickAnalyzeNow app = app"
    by (simp add: skip)
qed

theorem no_frame_skips_witness:
  "captureFrame \<lparr> getContext2d = True, toDataURL = (\<lambda>w h v. ''data:image/jpeg;base64,AAAA'') \<rparr>
     (Some \<lparr> readyState = 2, videoWidth = 0, videoHeight = 0 \<rparr>) = None \<and>
   processFrame_begin
     \<lparr> cl_isCameraActive = True, cl_currentMode = GENERAL,
       cl_settings = \<lparr> verbosity = STANDARD, speechRate = 1, autoNarration = False,
                       autoInterval = 4000 \<rparr> \<rparr>
     False
     (Some \<lparr> cam_host = \<lparr> getContext2d = True,
                          toDataURL = (\<lambda>w h v. ''data:image/jpeg;base64,AAAA'') \<rparr>,
             cam_videoRef = Some \<lparr> readyState = 2, videoWidth = 0, videoHeight = 0 \<rparr> \<rparr>)
     (initialApp \<lparr> speaking = False, utterances = [], voices = [] \<rparr>)
     = initialApp \<lparr> speaking = False, utterances = [], voices = [] \<rparr>"
  using no_frame_skips
          [of "Some \<lparr> readyState = 2, videoWidth = 0, videoHeight = 0 \<rparr>"
              "\<lparr> getContext2d = True, toDataURL = (\<lambda>w h v. ''data:image/jpeg;base64,AAAA'') \<rparr>"
              "Some \<lparr> cam_host = \<lparr> getContext2d = True,
                                   toDataURL = (\<lambda>w h v. ''data:image/jpeg;base64,AAAA'') \<rparr>,
                      cam_videoRef = Some \<lparr> readyState = 2, videoWidth = 0, videoHeight = 0 \<rparr> \<rparr>"
              "\<lparr> cl_isCameraActive = True, cl_currentMode = GENERAL,
                 cl_settings = \<lparr> verbosity = STANDARD, speechRate = 1, autoNarration = False,
                                 autoInterval = 4000 \<rparr> \<rparr>"
              False
              "initialApp \<lparr> speaking = False, utterances = [], voices = [] \<rparr>"]
  by (simp add: captureFrame_def)

text \<open>
  Claim C10. Selecting a mode and toggling the camera each call \<open>speak\<close> with
  priority urgent and a non-empty announcement, so afterwards the device holds that
  announcement alone, whatever it was speaking or had queued.
\<close>

theorem announcements_are_urgent:
  "ttsService (step cameraRef (ClickMode m) app) =
     speak (replace_first CHR ''_'' CHR '' '' (toLowerCase (AppMode_value m)) @ '' mode selected'')
       urgent (settings app) (ttsService app) \<and>
   (\<exists>u. utt_text u =
           replace_first CHR ''_'' CHR '' '' (toLowerCase (AppMode_value m)) @ '' mode selected'' \<and>
        utt_pitch u = 11 / 10 \<and>
        utterances (synthesis (ttsService (step cameraRef (ClickMode m) app))) = [u]) \<and>
   ttsService (step cameraRef ClickToggleCamera app) =
     speak (if isCameraActive app then ''Camera stopped'' else ''Camera started'')
       urgent (settings app) (ttsService app) \<and>
   (\<exists>u. utt_text u = (if isCameraActive app then ''Camera stopped'' else ''Camera started'') \<and>
        utt_pitch u = 11 / 10 \<and>
        utterances (synthesis (ttsService (step cameraRef ClickToggleCamera app))) = [u])"
proof -
  have m: "ttsService (step cameraRef (ClickMode m) app) =
     speak (replace_first CHR ''_'' CHR '' '' (toLowerCase (AppMode_value m)) @ '' mode selected'')
       urgent (settings app) (ttsService app)"
    by (simp add: commit_keeps handleModeSelect_def Let_def setTimeout_def render_def)
  have c: "ttsService (step cameraRef ClickToggleCamera app) =
     speak (if isCameraActive app then ''Camera stopped'' else ''Camera started'')
       urgent (settings app) (ttsService app)"
    by (simp add: commit_keeps toggleCamera_def Let_def render_def)
  have ne: "replace_first CHR ''_'' CHR '' '' (toLowerCase (AppMode_value m)) @ '' mode selected'' \<noteq> []"
    by simp
  have ne': "(if isCameraActive app then ''Camera stopped'' else ''Camera started'') \<noteq> []"
    by simp
  show ?thesis
    unfolding m c
    using speak_nonempty[OF ne, of "settings app" urgent "ttsService app"]
          speak_nonempty[OF ne', of "settings app" urgent "ttsService app"]
    by auto
qed

lemma commit_nextTimerId: "nextTimerId app \<le> nextTimerId (commit b cam app)"
  by (auto simp add: commit_def autoNarration_effect_def Let_def setInterval_def
                     processFrame_begin_keeps cleanup_keeps clearInterval_def
           split: option.splits)

lemma fresh_mono:
  "list_all (\<lambda>t. timer_id t < n) ts \<Longrightarrow> set ts' \<subseteq> set ts \<Longrightarrow> n \<le> n' \<Longrightarrow>
   list_all (\<lambda>t. timer_id t < n') ts'"
  by (fastforce simp: list_all_iff)

lemma timeouts_handleModeSelect:
  "timeouts (handleModeSelect cl m app) =
     (if \<not> autoNarration (cl_settings cl) \<and> cl_isCameraActive cl
      then timeouts app @ [\<lparr> timer_id = nextTimerId app, timer_delay = 500, timer_closure = cl \<rparr>]
      else timeouts app)"
  "nextTimerId (handleModeSelect cl m app) =
     (if \<not> autoNarration (cl_settings cl) \<and> cl_isCameraActive cl
      then nextTimerId app + 1 else nextTimerId app)"
  by (simp_all add: handleModeSelect_def Let_def setTimeout_def)

lemma timeouts_fresh_step:
  assumes "list_all (\<lambda>t. timer_id t < nextTimerId app) (timeouts app)"
  shows "list_all (\<lambda>t. timer_id t < nextTimerId (step cam e app)) (timeouts (step cam e app))"
proof (cases e)
  case (ClickMode m)
  have "list_all (\<lambda>t. timer_id t < nextTimerId (handleModeSelect (render app) m app))
          (timeouts (handleModeSelect (render app) m app))"
    using assms by (auto simp: timeouts_handleModeSelect list_all_iff)
  then show ?thesis
    unfolding ClickMode step.simps
    by (rule fresh_mono) (simp_all add: commit_keeps commit_nextTimerId)
next
  case (TimeoutExpire i)
  show ?thesis
    unfolding TimeoutExpire step.simps
    by (rule fresh_mono[OF assms]) (auto simp: processFrame_begin_keeps split: option.splits)
next
  case ClickToggleCamera
  show ?thesis
    unfolding ClickToggleCamera step.simps
    by (rule fresh_mono[OF assms, where n' = "nextTimerId (commit True cam (toggleCamera (render app) app))"])
       (use commit_nextTimerId[of "toggleCamera (render app) app" True cam]
        in \<open>simp_all add: commit_keeps toggleCamera_def Let_def\<close>)
next
  case ClickToggleAuto
  show ?thesis
    unfolding ClickToggleAuto step.simps
    by (rule fresh_mono[OF assms])
       (use commit_nextTimerId[of "app\<lparr> settings := (settings app)\<lparr> autoNarration := \<not> autoNarration (settings app) \<rparr> \<rparr>" True cam]
        in \<open>simp_all add: commit_keeps\<close>)
next
  case (ChangeSpeechRate r)
  show ?thesis
    unfolding ChangeSpeechRate step.simps
    by (rule fresh_mono[OF assms])
       (use commit_nextTimerId[of "app\<lparr> settings := (settings app)\<lparr> speechRate := r \<rparr> \<rparr>" True cam]
        in \<open>simp_all add: commit_keeps\<close>)
next
  case (ClickVerbosity v)
  show ?thesis
    unfolding ClickVerbosity step.simps
    by (rule fresh_mono[OF assms])
       (use commit_nextTimerId[of "app\<lparr> settings := (settings app)\<lparr> verbosity := v \<rparr> \<rparr>" True cam]
        in \<open>simp_all add: commit_keeps\<close>)
next
  case (ChangeAutoInterval n)
  show ?thesis
    unfolding ChangeAutoInterval step.simps
    by (rule fresh_mono[OF assms])
       (use commit_nextTimerId[of "app\<lparr> settings := (settings app)\<lparr> autoInterval := n \<rparr> \<rparr>" True cam]
        in \<open>simp_all add: commit_keeps\<close>)
next
  case ClickAnalyzeNow
  show ?thesis
    unfolding ClickAnalyzeNow step.simps
    by (rule fresh_mono[OF assms]) (simp_all add: processFrame_begin_keeps)
next
  case (IntervalTick i)
  show ?thesis
    unfolding IntervalTick step.simps
    by (rule fresh_mono[OF assms]) (simp_all add: processFrame_begin_keeps split: option.splits)
next
  case (AnalysisSettles k svc now)
  show ?thesis
    unfolding AnalysisSettles step.simps
    by (rule fresh_mono[OF assms]) (simp_all add: processFrame_resume_keeps)
next
  case UtteranceEnds
  show ?thesis
    unfolding UtteranceEnds step.simps
    by (rule fresh_mono[OF assms]) simp_all
qed

lemma timeouts_fresh_run:
  "list_all (\<lambda>t. timer_id t < nextTimerId app) (timeouts app) \<Longrightarrow> run evs app = Some app' \<Longrightarrow>
   list_all (\<lambda>t. timer_id t < nextTimerId app') (timeouts app')"
proof (induction evs arbitrary: app)
  case Nil
  then show ?case by simp
next
  case (Cons ce evs)
  obtain cam e where ce: "ce = (cam, e)" by (cases ce)
  from Cons.prems(2) have r: "run evs (step cam e app) = Some app'"
    unfolding ce by (simp split: if_splits)
  from Cons.IH[OF timeouts_fresh_step[OF Cons.prems(1)] r] show ?case .
qed

lemma find_snoc_fresh:
  "list_all (\<lambda>t. \<not> P t) xs \<Longrightarrow> P x \<Longrightarrow> find P (xs @ [x]) = Some x"
  by (induction xs) simp_all

lemma filter_snoc_fresh:
  "list_all (\<lambda>t. \<not> P t) xs \<Longrightarrow> P x \<Longrightarrow> filter (\<lambda>t. \<not> P t) (xs @ [x]) = xs"
  by (induction xs) simp_all

text \<open>
  The timer of a mode selection: in a reachable state, selecting a mode arms one timer
  of 500 ms when the camera is active and auto-narration is off, and none otherwise.
  When that timer expires it calls \<open>processFrame\<close> without the auto flag, with the
  values of the render in which the mode was selected.
\<close>

lemma mode_switch_timer:
  assumes "run evs (initialApp device) = Some app"
  shows "timeouts (step cameraRef (ClickMode m) app) =
           (if isCameraActive app \<and> \<not> autoNarration (settings app)
            then timeouts app @
                   [\<lparr> timer_id = nextTimerId app, timer_delay = 500, timer_closure = render app \<rparr>]
            else timeouts app) \<and>
         (isCameraActive app \<and> \<not> autoNarration (settings app) \<longrightarrow>
            step cameraRef' (TimeoutExpire (nextTimerId app)) (step cameraRef (ClickMode m) app) =
              processFrame_begin (render app) False cameraRef'
                ((step cameraRef (ClickMode m) app)\<lparr> timeouts := timeouts app \<rparr>))"
proof (intro conjI impI)
  show ts: "timeouts (step cameraRef (ClickMode m) app) =
           (if isCameraActive app \<and> \<not> autoNarration (settings app)
            then timeouts app @
                   [\<lparr> timer_id = nextTimerId app, timer_delay = 500, timer_closure = render app \<rparr>]
            else timeouts app)"
    by (auto simp add: commit_keeps timeouts_handleModeSelect render_def)
  assume on: "isCameraActive app \<and> \<not> autoNarration (settings app)"
  let ?t = "\<lparr> timer_id = nextTimerId app, timer_delay = 500, timer_closure = render app \<rparr>"
  let ?app1 = "step cameraRef (ClickMode m) app"
  have "list_all (\<lambda>t. timer_id t < nextTimerId (initialApp device)) (timeouts (initialApp device))"
    by (simp add: initialApp_def)
  from timeouts_fresh_run[OF this assms]
  have fresh: "list_all (\<lambda>t. \<not> timer_id t = nextTimerId app) (timeouts app)"
    by (auto simp: list_all_iff)
  have t1: "timeouts ?app1 = timeouts app @ [?t]"
    using ts on by simp
  have f: "find (\<lambda>t. timer_id t = nextTimerId app) (timeouts ?app1) = Some ?t"
    unfolding t1 by (rule find_snoc_fresh[OF fresh]) simp
  have g: "filter (\<lambda>t. timer_id t \<noteq> nextTimerId app) (timeouts ?app1) = timeouts app"
    unfolding t1 by (rule filter_snoc_fresh[OF fresh]) simp
  have "step cameraRef' (TimeoutExpire i) a =
          (case find (\<lambda>t. timer_id t = i) (timeouts a) of
             None \<Rightarrow> a
           | Some t \<Rightarrow>
               processFrame_begin (timer_closure t) False cameraRef'
                 (a\<lparr> timeouts := filter (\<lambda>t. timer_id t \<noteq> i) (timeouts a) \<rparr>))" for i a
    by simp
  from this[of "nextTimerId app" ?app1]
  show "step cameraRef' (TimeoutExpire (nextTimerId app)) ?app1 =
          processFrame_begin (render app) False cameraRef' (?app1\<lparr> timeouts := timeouts app \<rparr>)"
    by (simp only: f g option.case Timer.simps)
qed

text \<open>
  Claim C8. The one trigger is scheduled after 500 ms as claimed, but it is not the
  equivalent of a manual trigger: its callback is the \<open>processFrame\<close> of the render
  before the switch, so the analysis it issues asks with the previous mode. With the
  camera on and auto-narration off, selecting NAVIGATION from GENERAL and letting the
  timer fire issues an analysis for GENERAL while the current mode is NAVIGATION; the
  manual button pressed at that moment issues it for NAVIGATION, and so does the
  immediate trigger of the same selection made with auto-narration on.
\<close>

theorem mode_switch_trigger_stale:
  "map_option (\<lambda>app. (currentMode app,
                      map (\<lambda>pa. (cl_currentMode (pa_closure pa), pa_triggeredByAuto pa))
                        (awaiting app),
                      map timer_delay (timeouts app)))
     (run [(None, ClickToggleCamera),
           (None, ClickMode NAVIGATION)]
        (initialApp \<lparr> speaking = False, utterances = [], voices = [] \<rparr>))
   = Some (NAVIGATION, [], [500]) \<and>
   map_option (\<lambda>app. (currentMode app,
                      map (\<lambda>pa. (cl_currentMode (pa_closure pa), pa_triggeredByAuto pa))
                        (awaiting app),
                      map timer_delay (timeouts app)))
     (run [(None, ClickToggleCamera),
           (None, ClickMode NAVIGATION),
           (Some \<lparr> cam_host = \<lparr> getContext2d = True,
                                toDataURL = (\<lambda>w h v. ''data:image/jpeg;base64,AAAA'') \<rparr>,
                   cam_videoRef = Some \<lparr> readyState = 4, videoWidth = 1280, videoHeight = 720 \<rparr> \<rparr>,
            TimeoutExpire 1)]
        (initialApp \<lparr> speaking = False, utterances = [], voices = [] \<rparr>))
   = Some (NAVIGATION, [(GENERAL, False)], []) \<and>
   map_option (\<lambda>app. (currentMode app,
                      map (\<lambda>pa. (cl_currentMode (pa_closure pa), pa_triggeredByAuto pa))
                        (awaiting app),
                      map timer_delay (timeouts app)))
     (run [(None, ClickToggleCamera),
           (None, ClickMode NAVIGATION),
           (Some \<lparr> cam_host = \<lparr> getContext2d = True,
                                toDataURL = (\<lambda>w h v. ''data:image/jpeg;base64,AAAA'') \<rparr>,
                   cam_videoRef = Some \<lparr> readyState = 4, videoWidth = 1280, videoHeight = 720 \<rparr> \<rparr>,
            ClickAnalyzeNow)]
        (initialApp \<lparr> speaking = False, utterances = [], voices = [] \<rparr>))
   = Some (NAVIGATION, [(NAVIGATION, False)], [500]) \<and>
   map_option (\<lambda>app. (currentMode app,
                      map (\<lambda>pa. (cl_currentMode (pa_closure pa), pa_triggeredByAuto pa))
                        (awaiting app),
                      map timer_delay (timeouts app)))
     (run [(None, ClickToggleCamera),
           (None, ClickToggleAuto),
           (Some \<lparr> cam_host = \<lparr> getContext2d = True,
                                toDataURL = (\<lambda>w h v. ''data:image/jpeg;base64,AAAA'') \<rparr>,
                   cam_videoRef = Some \<lparr> readyState = 4, videoWidth = 1280, videoHeight = 720 \<rparr> \<rparr>,
            ClickMode NAVIGATION)]
        (initialApp \<lparr> speaking = False, utterances = [], voices = [] \<rparr>))
   = Some (NAVIGATION, [(NAVIGATION, True)], [])"
  by (simp add: eval_defs)

text \<open>
  Claim C5. In every reachable state at most one recurring timer is active, and the
  cleanup of the effect leaves none. Turning auto-narration on with the camera active
  fires \<open>processFrame\<close> once and leaves one timer at the current period. With the
  schedule running, turning auto-narration off or the camera off leaves no timer, and
  changing the period leaves one timer, a new one, at the new period.
\<close>

theorem single_recurring_schedule:
  assumes "run evs (initialApp device) = Some app"
  shows "length (intervals app) \<le> 1 \<and>
         intervals (autoNarration_cleanup app) = [] \<and>
         (isCameraActive app \<and> \<not> autoNarration (settings app) \<longrightarrow>
            intervals (step cameraRef ClickToggleAuto app) =
              [\<lparr> timer_id = nextTimerId app, timer_delay = autoInterval (settings app),
                 timer_closure =
                   \<lparr> cl_isCameraActive = True, cl_currentMode = currentMode app,
                     cl_settings = (settings app)\<lparr> autoNarration := True \<rparr> \<rparr> \<rparr>] \<and>
            awaiting (step cameraRef ClickToggleAuto app) =
              awaiting (processFrame_begin
                          \<lparr> cl_isCameraActive = True, cl_currentMode = currentMode app,
                            cl_settings = (settings app)\<lparr> autoNarration := True \<rparr> \<rparr>
                          True cameraRef app)) \<and>
         (isCameraActive app \<and> autoNarration (settings app) \<longrightarrow>
            (\<exists>i. i \<noteq> nextTimerId app \<and> timer_id ` set (intervals app) = {i}) \<and>
            intervals (step cameraRef ClickToggleAuto app) = [] \<and>
            intervals (step cameraRef ClickToggleCamera app) = [] \<and>
            intervals (step cameraRef (ChangeAutoInterval n) app) =
              [\<lparr> timer_id = nextTimerId app, timer_delay = n,
                 timer_closure =
                   \<lparr> cl_isCameraActive = True, cl_currentMode = currentMode app,
                     cl_settings = (settings app)\<lparr> autoInterval := n \<rparr> \<rparr> \<rparr>])"
proof -
  have inv: "schedule_inv app"
    using schedule_inv_run[OF schedule_inv_initial assms] .
  have loose: "schedule_loose app" using inv by (rule schedule_inv_loose)
  have l1: "schedule_loose (app\<lparr> settings := s \<rparr>)" for s
    by (rule schedule_loose_cong[OF loose]) simp_all
  have l2: "schedule_loose (toggleCamera (render app) app)"
    by (rule schedule_loose_cong[OF loose]) (simp_all add: toggleCamera_keeps)
  have c1: "length (intervals app) \<le> 1"
    using inv by (auto simp: schedule_inv_def split: option.splits)
  have c2: "intervals (autoNarration_cleanup app) = []"
    using loose by (rule cleanup_clears)
  have c3: "intervals (step cameraRef ClickToggleAuto app) =
              [\<lparr> timer_id = nextTimerId app, timer_delay = autoInterval (settings app),
                 timer_closure =
                   \<lparr> cl_isCameraActive = True, cl_currentMode = currentMode app,
                     cl_settings = (settings app)\<lparr> autoNarration := True \<rparr> \<rparr> \<rparr>]"
    if "isCameraActive app \<and> \<not> autoNarration (settings app)"
    using that by (simp add: commit_intervals[OF l1] render_def)
  have c3': "awaiting (step cameraRef ClickToggleAuto app) =
              awaiting (processFrame_begin
                          \<lparr> cl_isCameraActive = True, cl_currentMode = currentMode app,
                            cl_settings = (settings app)\<lparr> autoNarration := True \<rparr> \<rparr>
                          True cameraRef app)"
    if "isCameraActive app \<and> \<not> autoNarration (settings app)"
  proof -
    let ?app1 = "app\<lparr> settings := (settings app)\<lparr> autoNarration := True \<rparr> \<rparr>"
    have "awaiting (step cameraRef ClickToggleAuto app) =
            awaiting (processFrame_begin (render ?app1) True cameraRef ?app1)"
      using that by (simp add: commit_awaiting)
    also have "\<dots> = awaiting (processFrame_begin (render ?app1) True cameraRef app)"
      by (rule awaiting_begin_cong) simp_all
    finally show ?thesis using that by (simp add: render_def)
  qed
  have c4: "\<exists>i. i \<noteq> nextTimerId app \<and> timer_id ` set (intervals app) = {i}"
    if "isCameraActive app \<and> autoNarration (settings app)"
    using that inv by (auto simp: schedule_inv_def split: option.splits)
  have c5: "intervals (step cameraRef ClickToggleAuto app) = []"
    if "isCameraActive app \<and> autoNarration (settings app)"
    using that by (simp add: commit_intervals[OF l1])
  have c6: "intervals (step cameraRef ClickToggleCamera app) = []"
    if "isCameraActive app \<and> autoNarration (settings app)"
  proof -
    have "isCameraActive (toggleCamera (render app) app) = (\<not> isCameraActive app)"
      by (simp add: toggleCamera_keeps render_def)
    with that commit_intervals[OF l2, of cameraRef] show ?thesis
      by (simp del: commit_def)
  qed
  have c7: "intervals (step cameraRef (ChangeAutoInterval n) app) =
              [\<lparr> timer_id = nextTimerId app, timer_delay = n,
                 timer_closure =
                   \<lparr> cl_isCameraActive = True, cl_currentMode = currentMode app,
                     cl_settings = (settings app)\<lparr> autoInterval := n \<rparr> \<rparr> \<rparr>]"
    if "isCameraActive app \<and> autoNarration (settings app)"
    using that by (simp add: commit_intervals[OF l1] render_def)
  show ?thesis
    by (intro conjI impI) (rule c1 c2 | erule c3 c3' c4 c5 c6 c7)+
qed

theorem single_recurring_schedule_witness:
  "(\<exists>app. run [(None, ClickToggleCamera)]
            (initialApp \<lparr> speaking = False, utterances = [], voices = [] \<rparr>) = Some app \<and>
          isCameraActive app \<and> \<not> autoNarration (settings app) \<and>
          length (intervals app) \<le> 1 \<and>
          length (intervals (step None ClickToggleAuto app)) = 1) \<and>
   (\<exists>app. run [(None, ClickToggleCamera), (None, ClickToggleAuto)]
            (initialApp \<lparr> speaking = False, utterances = [], voices = [] \<rparr>) = Some app \<and>
          isCameraActive app \<and> autoNarration (settings app) \<and>
          length (intervals app) \<le> 1 \<and>
          intervals (step None ClickToggleAuto app) = [] \<and>
          intervals (step None ClickToggleCamera app) = [] \<and>
          length (intervals (step None (ChangeAutoInterval 2000) app)) = 1)"
proof (rule conjI)
  have "\<exists>app. run [(None, ClickToggleCamera)]
            (initialApp \<lparr> speaking = False, utterances = [], voices = [] \<rparr>) = Some app \<and>
         isCameraActive app \<and> \<not> autoNarration (settings app)"
    by (simp add: eval_defs)
  then obtain app where
    r: "run [(None, ClickToggleCamera)]
            (initialApp \<lparr> speaking = False, utterances = [], voices = [] \<rparr>) = Some app"
    and a: "isCameraActive app \<and> \<not> autoNarration (settings app)"
    by blast
  from single_recurring_schedule[OF r, of None 2000] a
  have "length (intervals app) \<le> 1 \<and> length (intervals (step None ClickToggleAuto app)) = 1"
    by (simp del: step.simps)
  with r a
  show "\<exists>app. run [(None, ClickToggleCamera)]
            (initialApp \<lparr> speaking = False, utterances = [], voices = [] \<rparr>) = Some app \<and>
          isCameraActive app \<and> \<not> autoNarration (settings app) \<and>
          length (intervals app) \<le> 1 \<and>
          length (intervals (step None ClickToggleAuto app)) = 1"
    by blast
next
  have "\<exists>app. run [(None, ClickToggleCamera), (None, ClickToggleAuto)]
            (initialApp \<lparr> speaking = False, utterances = [], voices = [] \<rparr>) = Some app \<and>
         isCameraActive app \<and> autoNarration (settings app)"
    by (simp add: eval_defs)
  then obtain app where
    r: "run [(None, ClickToggleCamera), (None, ClickToggleAuto)]
            (initialApp \<lparr> speaking = False, utterances = [], voices = [] \<rparr>) = Some app"
    and a: "isCameraActive app \<and> autoNarration (settings app)"
    by blast
  from single_recurring_schedule[OF r, of None 2000] a
  have "length (intervals app) \<le> 1 \<and>
        intervals (step None ClickToggleAuto app) = [] \<and>
        intervals (step None ClickToggleCamera app) = [] \<and>
        length (intervals (step None (ChangeAutoInterval 2000) app)) = 1"
    by (simp del: step.simps)
  with r a
  show "\<exists>app. run [(None, ClickToggleCamera), (None, ClickToggleAuto)]
            (initialApp \<lparr> speaking = False, utterances = [], voices = [] \<rparr>) = Some app \<and>
          isCameraActive app \<and> autoNarration (settings app) \<and>
          length (intervals app) \<le> 1 \<and>
          intervals (step None ClickToggleAuto app) = [] \<and>
          intervals (step None ClickToggleCamera app) = [] \<and>
          length (intervals (step None (ChangeAutoInterval 2000) app)) = 1"
    by blast
qed

end
